theory Spec2Isabelle
  imports Main "HOL-Library.Word"
begin

section \<open>The WebRTC server's HTTP handler (\<open>webRTCServer.onRequest\<close>)\<close>

subsection \<open>Go string helpers\<close>

text \<open>\<open>strings.HasSuffix\<close> and \<open>strings.TrimSuffix\<close> on byte strings.\<close>

definition HasSuffix :: "string \<Rightarrow> string \<Rightarrow> bool" where
  "HasSuffix s suffix =
     (length suffix \<le> length s \<and> drop (length s - length suffix) s = suffix)"

definition TrimSuffix :: "string \<Rightarrow> string \<Rightarrow> string" where
  "TrimSuffix s suffix =
     (if HasSuffix s suffix then take (length s - length suffix) s else s)"

subsection \<open>Requests, path resolution results and the response writer\<close>

text \<open>
  \<open>ErrAuthentication\<close> (package defs) and its \<open>Error()\<close> method.
\<close>

record ErrAuthentication =
  Message :: string

definition ErrAuthentication_Error :: "ErrAuthentication \<Rightarrow> string" where
  "ErrAuthentication_Error e = ''authentication failed: '' @ Message e"

text \<open>
  The error returned by \<open>pathManager.getPathConf\<close>: either a \<open>pathErrAuth\<close>, which wraps
  the authentication error, or any other error (the name matches no configuration).
\<close>

datatype path_error = pathErrAuth ErrAuthentication | pathErrOther string

record authCredentials =
  query :: string
  ip :: string
  user :: string
  pass :: string
  proto :: string

record pathGetPathConfReq =
  name :: string
  publish :: bool
  credentials :: authCredentials

text \<open>
  The part of \<open>http.Request\<close> that the handler reads. \<open>basicAuth\<close> is the result of
  \<open>Request.BasicAuth()\<close>: \<open>None\<close> when the request carries no Basic credentials.
\<close>

record request =
  reqMethod :: string
  urlPath :: string
  rawQuery :: string
  basicAuth :: "(string \<times> string) option"
  clientIP :: string
  accessControlRequestHeaders :: string

text \<open>
  The response writer and the server log. \<open>status\<close> is \<open>None\<close> until \<open>WriteHeader\<close> is
  called. \<open>wsHandoff\<close> records that the handler went on to upgrade the connection to a
  websocket for the given directory and direction; what happens on that socket is outside
  this model.
\<close>

record response =
  headers :: "string \<rightharpoonup> string"
  status :: "nat option"
  body :: string
  logged :: "string list"
  wsHandoff :: "(string \<times> bool) option"

text \<open>
  The server fields the handler uses. \<open>pathManager.getPathConf\<close> and the two embedded
  pages are not part of the handler and are taken as parameters.
\<close>

record webRTCServerHTTP =
  allowOrigin :: string
  getPathConf :: "pathGetPathConfReq \<Rightarrow> path_error option"
  webrtcReadIndex :: string
  webrtcPublishIndex :: string

datatype go_panic = SliceBoundsOutOfRange | NilPointerDereference | TypeAssertionFailed

definition emptyResponse :: response where
  "emptyResponse =
     \<lparr>headers = Map.empty, status = None, body = [], logged = [], wsHandoff = None\<rparr>"

definition setHeader :: "string \<Rightarrow> string \<Rightarrow> response \<Rightarrow> response" where
  "setHeader k v w = w\<lparr>headers := (headers w)(k \<mapsto> v)\<rparr>"

definition WriteHeader :: "nat \<Rightarrow> response \<Rightarrow> response" where
  "WriteHeader code w = w\<lparr>status := Some code\<rparr>"

definition Log :: "string \<Rightarrow> response \<Rightarrow> response" where
  "Log msg w = w\<lparr>logged := logged w @ [''[WebRTC] '' @ msg]\<rparr>"

subsection \<open>The handler\<close>

text \<open>
  The \<open>switch\<close> on the path suffix. \<open>Matched dir fname publish\<close> is a path that goes on to
  resolution, \<open>Favicon\<close> the silent return, \<open>Redirect dir\<close> the default case without a
  trailing slash.
\<close>

datatype path_switch = Matched string string bool | Favicon | Redirect string

definition pathSwitch :: "string \<Rightarrow> path_switch" where
  "pathSwitch pa =
     (if HasSuffix pa ''/publish/ws''
        then Matched (take (length pa - length ''/publish/ws'') pa) ''publish/ws'' True
      else if HasSuffix pa ''/publish''
        then Matched (take (length pa - length ''/publish'') pa) ''publish'' True
      else if HasSuffix pa ''/ws''
        then Matched (take (length pa - length ''/ws'') pa) ''ws'' False
      else if pa = ''favicon.ico'' then Favicon
      else if \<not> HasSuffix pa ''/'' then Redirect pa
      else Matched pa '''' False)"

text \<open>
  \<open>Request.BasicAuth()\<close> as the triple the handler binds, and the request that the handler
  sends to \<open>getPathConf\<close>.
\<close>

definition BasicAuth :: "request \<Rightarrow> string \<times> string \<times> bool" where
  "BasicAuth r = (case basicAuth r of None \<Rightarrow> ([], [], False) | Some (u, p) \<Rightarrow> (u, p, True))"

definition confReq :: "request \<Rightarrow> string \<Rightarrow> bool \<Rightarrow> pathGetPathConfReq" where
  "confReq r dir pub =
     (case BasicAuth r of (usr, pwd, hasCredentials) \<Rightarrow>
        \<lparr>name = dir, publish = pub,
         credentials = \<lparr>query = rawQuery r, ip = clientIP r, user = usr, pass = pwd,
                        proto = ''webrtc''\<rparr>\<rparr>)"

text \<open>The tail of the handler, from \<open>strings.TrimSuffix(dir, "/")\<close> on.\<close>

definition resolveAndServe ::
  "webRTCServerHTTP \<Rightarrow> request \<Rightarrow> string \<Rightarrow> string \<Rightarrow> bool \<Rightarrow> response \<Rightarrow> response" where
  "resolveAndServe s r dir0 fname pub w =
     (let dir = TrimSuffix dir0 ''/'' in
      if dir = [] then w
      else
        (case BasicAuth r of (usr, pwd, hasCredentials) \<Rightarrow>
           (case getPathConf s (confReq r dir pub) of
              Some (pathErrAuth wrapped) \<Rightarrow>
                if \<not> hasCredentials
                then WriteHeader 401
                       (setHeader ''WWW-Authenticate'' ''Basic realm=\"mediamtx\"'' w)
                else WriteHeader 401
                       (Log (''authentication error: '' @ ErrAuthentication_Error wrapped) w)
            | Some (pathErrOther _) \<Rightarrow> WriteHeader 404 w
            | None \<Rightarrow>
                if fname = [] then
                  (WriteHeader 200 (setHeader ''Content-Type'' ''text/html'' w))
                    \<lparr>body := webrtcReadIndex s\<rparr>
                else if fname = ''publish'' then
                  (WriteHeader 200 (setHeader ''Content-Type'' ''text/html'' w))
                    \<lparr>body := webrtcPublishIndex s\<rparr>
                else if fname = ''ws'' \<or> fname = ''publish/ws'' then
                  w\<lparr>wsHandoff := Some (dir, fname = ''publish/ws'')\<rparr>
                else w)))"

definition onRequest :: "webRTCServerHTTP \<Rightarrow> request \<Rightarrow> go_panic + response" where
  "onRequest s r =
     (let w = setHeader ''Access-Control-Allow-Credentials'' ''true''
                (setHeader ''Access-Control-Allow-Origin'' (allowOrigin s) emptyResponse)
      in if reqMethod r = ''OPTIONS'' then
           Inr (WriteHeader 200
                  (setHeader ''Access-Control-Allow-Headers'' (accessControlRequestHeaders r)
                     (setHeader ''Access-Control-Allow-Methods'' ''GET, OPTIONS'' w)))
         else if reqMethod r \<noteq> ''GET'' then Inr w
         else
           (case urlPath r of
              [] \<Rightarrow> Inl SliceBoundsOutOfRange
            | _ # pa \<Rightarrow>
                (case pathSwitch pa of
                   Favicon \<Rightarrow> Inr w
                 | Redirect dir \<Rightarrow>
                     Inr (WriteHeader 301 (setHeader ''Location'' (''/'' @ dir @ ''/'') w))
                 | Matched dir fname pub \<Rightarrow> Inr (resolveAndServe s r dir fname pub w))))"

text \<open>What the requester receives: everything the handler wrote except the server log.\<close>

definition clientView :: "go_panic + response \<Rightarrow>
    go_panic + ((string \<rightharpoonup> string) \<times> nat option \<times> string \<times> (string \<times> bool) option)" where
  "clientView x =
     (case x of Inl e \<Rightarrow> Inl e
      | Inr w \<Rightarrow> Inr (headers w, status w, body w, wsHandoff w))"

definition statusOf :: "go_panic + response \<Rightarrow> nat option" where
  "statusOf x = (case x of Inl e \<Rightarrow> None | Inr w \<Rightarrow> status w)"

definition headerOf :: "go_panic + response \<Rightarrow> string \<Rightarrow> string option" where
  "headerOf x k = (case x of Inl e \<Rightarrow> None | Inr w \<Rightarrow> headers w k)"

definition loggedOf :: "go_panic + response \<Rightarrow> string list" where
  "loggedOf x = (case x of Inl e \<Rightarrow> [] | Inr w \<Rightarrow> logged w)"

subsection \<open>A protected path, for the examples\<close>




text \<open>
  A path manager that guards the path \<open>secure\<close> by address and by credentials, and tells
  in the wrapped error which of the two it refused; a request like \<open>getRequest\<close> from a
  given address.
\<close>

definition guardedManager :: "pathGetPathConfReq \<Rightarrow> path_error option" where
  "guardedManager q =
     (if name q \<noteq> ''secure'' then Some (pathErrOther ''path not configured'')
      else if ip (credentials q) \<noteq> ''192.0.2.7''
        then Some (pathErrAuth \<lparr>Message = ''ip not allowed''\<rparr>)
      else if user (credentials q) \<noteq> ''u'' \<or> pass (credentials q) \<noteq> ''p''
        then Some (pathErrAuth \<lparr>Message = ''wrong credentials''\<rparr>)
      else None)"

definition guardedServer :: webRTCServerHTTP where
  "guardedServer =
     \<lparr>allowOrigin = ''*'', getPathConf = guardedManager,
      webrtcReadIndex = ''<html>read</html>'', webrtcPublishIndex = ''<html>publish</html>''\<rparr>"

definition getRequestFrom :: "string \<Rightarrow> string \<Rightarrow> (string \<times> string) option \<Rightarrow> request" where
  "getRequestFrom addr path auth =
     \<lparr>reqMethod = ''GET'', urlPath = path, rawQuery = [], basicAuth = auth,
      clientIP = addr, accessControlRequestHeaders = []\<rparr>"

section \<open>The WebRTC server's actor loop (\<open>webRTCServer.run\<close>) and its request operations\<close>

text \<open>
  \<open>s.conns\<close> is a Go map keyed by connection pointers, used as a set. Pointers are
  addresses into a store of connection objects. Of a connection the loop reads \<open>uuid\<close>,
  \<open>created\<close>, \<open>remoteAddr()\<close> and \<open>safePC()\<close> (\<open>None\<close> for a nil peer connection); of a peer
  connection it reads the two candidates and the two byte counters.
\<close>

type_synonym addr = nat

record peerConnection =
  localCandidate :: string
  remoteCandidate :: string
  bytesReceived :: "64 word"
  bytesSent :: "64 word"

record webRTCConn =
  uuid :: string
  created :: nat
  remoteAddr :: string
  safePC :: "peerConnection option"

record webRTCServerAPIConnsListItem =
  Created :: nat
  RemoteAddr :: string
  PeerConnectionEstablished :: bool
  LocalCandidate :: string
  RemoteCandidate :: string
  BytesReceived :: "64 word"
  BytesSent :: "64 word"

text \<open>
  The state owned by the actor: the connection set, the store of connection objects and
  the sequence of \<open>c.close()\<close> calls made so far.
\<close>

record webRTCServer =
  conns :: "addr set"
  store :: "addr \<Rightarrow> webRTCConn"
  closeCalls :: "addr list"

text \<open>
  Go iterates over a map in an unspecified order, visiting each key once. Every loop over
  \<open>s.conns\<close> therefore takes the order of that iteration as an argument; \<open>enumerates\<close>
  says that the argument is an iteration order of the connection set.
\<close>

definition enumerates :: "addr list \<Rightarrow> webRTCServer \<Rightarrow> bool" where
  "enumerates order s = (distinct order \<and> set order = conns s)"

text \<open>\<open>case req := <-s.connNew\<close>, with the connection that \<open>newWebRTCConn\<close> allocated.\<close>

definition onConnNew :: "addr \<Rightarrow> webRTCConn \<Rightarrow> webRTCServer \<Rightarrow> webRTCServer" where
  "onConnNew c obj s = s\<lparr>conns := insert c (conns s), store := (store s)(c := obj)\<rparr>"

text \<open>\<open>case conn := <-s.chConnClose\<close>.\<close>

definition onConnClose :: "addr \<Rightarrow> webRTCServer \<Rightarrow> webRTCServer" where
  "onConnClose c s = s\<lparr>conns := conns s - {c}\<rparr>"

text \<open>\<open>case req := <-s.chAPIConnsList\<close>: one item per connection, keyed by its UUID.\<close>

definition listItem :: "webRTCConn \<Rightarrow> webRTCServerAPIConnsListItem" where
  "listItem c =
     (case safePC c of
        None \<Rightarrow>
          \<lparr>Created = created c, RemoteAddr = remoteAddr c, PeerConnectionEstablished = False,
           LocalCandidate = [], RemoteCandidate = [], BytesReceived = 0, BytesSent = 0\<rparr>
      | Some pc \<Rightarrow>
          \<lparr>Created = created c, RemoteAddr = remoteAddr c, PeerConnectionEstablished = True,
           LocalCandidate = localCandidate pc, RemoteCandidate = remoteCandidate pc,
           BytesReceived = bytesReceived pc, BytesSent = bytesSent pc\<rparr>)"

fun listLoop :: "(addr \<Rightarrow> webRTCConn) \<Rightarrow> addr list \<Rightarrow>
    (string \<rightharpoonup> webRTCServerAPIConnsListItem) \<Rightarrow> (string \<rightharpoonup> webRTCServerAPIConnsListItem)" where
  "listLoop h [] items = items"
| "listLoop h (c # cs) items = listLoop h cs (items(uuid (h c) \<mapsto> listItem (h c)))"

definition onAPIConnsList ::
  "addr list \<Rightarrow> webRTCServer \<Rightarrow> (string \<rightharpoonup> webRTCServerAPIConnsListItem)" where
  "onAPIConnsList order s = listLoop (store s) order Map.empty"

text \<open>
  \<open>case req := <-s.chAPIConnsKick\<close>: the first connection of the iteration whose UUID is
  the requested id is deleted from the set and closed.
\<close>

fun kickLoop :: "(addr \<Rightarrow> webRTCConn) \<Rightarrow> string \<Rightarrow> addr list \<Rightarrow> addr option" where
  "kickLoop h ident [] = None"
| "kickLoop h ident (c # cs) = (if uuid (h c) = ident then Some c else kickLoop h ident cs)"

definition onAPIConnsKick ::
  "addr list \<Rightarrow> string \<Rightarrow> webRTCServer \<Rightarrow> webRTCServer \<times> string option" where
  "onAPIConnsKick order ident s =
     (case kickLoop (store s) ident order of
        Some c \<Rightarrow> (s\<lparr>conns := conns s - {c}, closeCalls := closeCalls s @ [c]\<rparr>, None)
      | None \<Rightarrow> (s, Some ''not found''))"

text \<open>
  The callers' side. Each operation is a \<open>select\<close> between handing the request to the
  actor and the \<open>Done\<close> channel of the server's context; which branch is taken is decided
  by the scheduler and is an argument here.
\<close>

datatype select_branch = Delivered | CtxDone

definition apiConnsList :: "select_branch \<Rightarrow> addr list \<Rightarrow> webRTCServer \<Rightarrow>
    (string \<rightharpoonup> webRTCServerAPIConnsListItem) option \<times> string option" where
  "apiConnsList sel order s =
     (case sel of
        Delivered \<Rightarrow> (Some (onAPIConnsList order s), None)
      | CtxDone \<Rightarrow> (None, Some ''terminated''))"

definition apiConnsKick :: "select_branch \<Rightarrow> addr list \<Rightarrow> string \<Rightarrow> webRTCServer \<Rightarrow>
    webRTCServer \<times> string option" where
  "apiConnsKick sel order ident s =
     (case sel of
        Delivered \<Rightarrow> onAPIConnsKick order ident s
      | CtxDone \<Rightarrow> (s, Some ''terminated''))"

definition connClose :: "select_branch \<Rightarrow> addr \<Rightarrow> webRTCServer \<Rightarrow> webRTCServer" where
  "connClose sel c s = (case sel of Delivered \<Rightarrow> onConnClose c s | CtxDone \<Rightarrow> s)"

section \<open>The fMP4 client processor (\<open>clientProcessorFMP4\<close>)\<close>

text \<open>
  Of the fmp4 package the processor reads a part track's \<open>ID\<close> and \<open>BaseTime\<close> (a
  \<open>uint64\<close>) and an init track's \<open>ID\<close>, \<open>TimeScale\<close> and codec.
\<close>

record PartTrack =
  ID :: int
  BaseTime :: "64 word"

datatype track_codec = TrackH264 | TrackMPEG4Audio | TrackOther

record InitTrack =
  InitTrack_ID :: int
  TimeScale :: "32 word"
  Track :: track_codec

text \<open>
  A track processor, as far as this file uses it: the channel \<open>queue\<close> (the tracks sent on
  it, oldest first), \<open>startRTC\<close>, and the constructor's time scale and data callback. A
  data callback returns its error and the effects (of type \<open>'e\<close>) that it caused through
  the user's \<open>onVideoData\<close> or \<open>onAudioData\<close>.
\<close>

record 'e clientProcessorFMP4Track =
  procTimeScale :: "32 word"
  queue :: "PartTrack list"
  startRTC :: "nat option"
  onData :: "int \<Rightarrow> string \<Rightarrow> string option \<times> 'e list"

record 'e clientProcessorFMP4 =
  initVideoTrack :: "InitTrack option"
  initAudioTrack :: "InitTrack option"
  videoProc :: "'e clientProcessorFMP4Track option"
  audioProc :: "'e clientProcessorFMP4Track option"
  clockInitialized :: bool
  startBaseTime :: "64 word"

datatype proc_error = ErrTerminated | ErrOther string | Panic go_panic

definition newClientProcessorFMP4Track ::
  "32 word \<Rightarrow> (int \<Rightarrow> string \<Rightarrow> string option \<times> 'e list) \<Rightarrow> 'e clientProcessorFMP4Track" where
  "newClientProcessorFMP4Track ts cb =
     \<lparr>procTimeScale = ts, queue = [], startRTC = None, onData = cb\<rparr>"

text \<open>
  The two data callbacks built by the constructor. \<open>h264.AVCCUnmarshal\<close> is a library
  function and a parameter.
\<close>

definition videoOnData :: "(string \<Rightarrow> string + string list) \<Rightarrow> (int \<Rightarrow> string list \<Rightarrow> 'e list) \<Rightarrow>
    int \<Rightarrow> string \<Rightarrow> string option \<times> 'e list" where
  "videoOnData AVCCUnmarshal onVideoData pts payload =
     (case AVCCUnmarshal payload of
        Inl err \<Rightarrow> (Some err, [])
      | Inr nalus \<Rightarrow> (None, onVideoData pts nalus))"

definition audioOnData :: "(int \<Rightarrow> string \<Rightarrow> 'e list) \<Rightarrow>
    int \<Rightarrow> string \<Rightarrow> string option \<times> 'e list" where
  "audioOnData onAudioData pts payload = (None, [])"

text \<open>
  \<open>newClientProcessorFMP4\<close>. \<open>fmp4.InitRead\<close> and the callbacks are parameters; a failed type
  assertion on an init track's codec panics. Every track processor gets the method
  \<open>onSubpartProcessed\<close> as its second argument and is registered with the routine pool,
  which starts it; neither shows in the record.
\<close>

definition newClientProcessorFMP4 ::
  "(string \<Rightarrow> string + InitTrack option \<times> InitTrack option) \<Rightarrow>
   (string \<Rightarrow> string + string list) \<Rightarrow> string \<Rightarrow>
   (InitTrack option \<Rightarrow> InitTrack option \<Rightarrow> string option) \<Rightarrow>
   (int \<Rightarrow> string list \<Rightarrow> 'e list) \<Rightarrow> (int \<Rightarrow> string \<Rightarrow> 'e list) \<Rightarrow>
   proc_error + 'e clientProcessorFMP4" where
  "newClientProcessorFMP4 InitRead AVCCUnmarshal initFile onTracks onVideoData onAudioData =
     (case InitRead initFile of
        Inl err \<Rightarrow> Inl (ErrOther err)
      | Inr (iv, ia) \<Rightarrow>
          if (case iv of None \<Rightarrow> False | Some t \<Rightarrow> Track t \<noteq> TrackH264)
            then Inl (Panic TypeAssertionFailed)
          else if (case ia of None \<Rightarrow> False | Some t \<Rightarrow> Track t \<noteq> TrackMPEG4Audio)
            then Inl (Panic TypeAssertionFailed)
          else
            (case onTracks iv ia of
               Some err \<Rightarrow> Inl (ErrOther err)
             | None \<Rightarrow>
                 Inr \<lparr>initVideoTrack = iv, initAudioTrack = ia,
                      videoProc = map_option
                        (\<lambda>t. newClientProcessorFMP4Track (TimeScale t)
                                (videoOnData AVCCUnmarshal onVideoData)) iv,
                      audioProc = map_option
                        (\<lambda>t. newClientProcessorFMP4Track (TimeScale t)
                                (audioOnData onAudioData)) ia,
                      clockInitialized = False, startBaseTime = 0\<rparr>))"

subsection \<open>\<open>processSegment\<close>\<close>

text \<open>Lines 123 to 134 of the loop body: the clock is set at the first track seen.\<close>

definition initClock ::
  "nat \<Rightarrow> 'e clientProcessorFMP4 \<Rightarrow> PartTrack \<Rightarrow> 'e clientProcessorFMP4" where
  "initClock now p track =
     (if \<not> clockInitialized p
      then p\<lparr>clockInitialized := True, startBaseTime := BaseTime track,
             videoProc := map_option (\<lambda>v. v\<lparr>startRTC := Some now\<rparr>) (videoProc p),
             audioProc := map_option (\<lambda>a. a\<lparr>startRTC := Some now\<rparr>) (audioProc p)\<rparr>
      else p)"

text \<open>\<open>track.BaseTime -= p.startBaseTime\<close>, on \<open>uint64\<close>.\<close>

definition rebaseTrack :: "64 word \<Rightarrow> PartTrack \<Rightarrow> PartTrack" where
  "rebaseTrack start track = track\<lparr>BaseTime := BaseTime track - start\<rparr>"

text \<open>\<open>p.initVideoTrack != nil && track.ID == p.initVideoTrack.ID\<close>.\<close>

definition isVideoSubpart :: "'e clientProcessorFMP4 \<Rightarrow> PartTrack \<Rightarrow> bool" where
  "isVideoSubpart p track =
     (case initVideoTrack p of None \<Rightarrow> False | Some iv \<Rightarrow> ID track = InitTrack_ID iv)"

text \<open>
  Every \<open>select\<close> of the processor has the context's \<open>Done\<close> channel as its second case.
  The schedule lists, for the selects in the order they are executed, whether the \<open>Done\<close>
  case is the one taken; past its end the channel operation is the one taken.
\<close>

definition ctxDoneTaken :: "bool list \<Rightarrow> bool" where
  "ctxDoneTaken sched = (case sched of [] \<Rightarrow> False | b # _ \<Rightarrow> b)"

text \<open>
  The first loop. It returns the error, the processor, the rest of the schedule, the
  subparts it has reached as the in-place update left them, and \<open>processingCount\<close>.
\<close>

definition withTrack :: "PartTrack \<Rightarrow>
    proc_error option \<times> 'e clientProcessorFMP4 \<times> bool list \<times> PartTrack list \<times> nat \<Rightarrow>
    proc_error option \<times> 'e clientProcessorFMP4 \<times> bool list \<times> PartTrack list \<times> nat" where
  "withTrack t r = (case r of (e, p, sched, ts, n) \<Rightarrow> (e, p, sched, t # ts, n))"

fun trackLoop :: "nat \<Rightarrow> bool list \<Rightarrow> 'e clientProcessorFMP4 \<Rightarrow> PartTrack list \<Rightarrow> nat \<Rightarrow>
    proc_error option \<times> 'e clientProcessorFMP4 \<times> bool list \<times> PartTrack list \<times> nat" where
  "trackLoop now sched p [] n = (None, p, sched, [], n)"
| "trackLoop now sched p (track # rest) n =
     (let p1 = initClock now p track;
          track' = rebaseTrack (startBaseTime p1) track
      in if isVideoSubpart p1 track' then
           (case videoProc p1 of
              None \<Rightarrow> (Some (Panic NilPointerDereference), p1, sched, [track'], n)
            | Some vp \<Rightarrow>
                if ctxDoneTaken sched then (Some ErrTerminated, p1, tl sched, [track'], n)
                else withTrack track'
                       (trackLoop now (tl sched)
                          (p1\<lparr>videoProc := Some (vp\<lparr>queue := queue vp @ [track']\<rparr>)\<rparr>) rest (Suc n)))
         else withTrack track' (trackLoop now sched p1 rest n))"

text \<open>The second loop: one receive from \<open>subpartProcessed\<close> per forwarded subpart.\<close>

fun waitLoop :: "bool list \<Rightarrow> nat \<Rightarrow> proc_error option \<times> bool list" where
  "waitLoop sched 0 = (None, sched)"
| "waitLoop sched (Suc n) =
     (if ctxDoneTaken sched then (Some ErrTerminated, tl sched) else waitLoop (tl sched) n)"

text \<open>
  \<open>fmp4.PartRead\<close> and the reading of \<open>time.Now()\<close> are parameters. The debug line that
  \<open>processSegment\<close> logs first is the same on every path and is left out.
\<close>

definition processSegment :: "(string \<Rightarrow> string + PartTrack list) \<Rightarrow> nat \<Rightarrow> bool list \<Rightarrow>
    'e clientProcessorFMP4 \<Rightarrow> string \<Rightarrow>
    proc_error option \<times> 'e clientProcessorFMP4 \<times> bool list \<times> PartTrack list" where
  "processSegment PartRead now sched p byts =
     (case PartRead byts of
        Inl err \<Rightarrow> (Some (ErrOther err), p, sched, [])
      | Inr subparts \<Rightarrow>
          (case trackLoop now sched p subparts 0 of
             (Some err, p', sched', ts, n) \<Rightarrow> (Some err, p', sched', ts)
           | (None, p', sched', ts, n) \<Rightarrow>
               (case waitLoop sched' n of (e, sched'') \<Rightarrow> (e, p', sched'', ts))))"

text \<open>
  \<open>run\<close>, over the segments that \<open>segmentQueue.pull\<close> delivers before the context is
  cancelled; after the last of them the pull fails and \<open>run\<close> returns "terminated". The
  result lists the subparts reached in all segments, in order.
\<close>

fun run :: "(string \<Rightarrow> string + PartTrack list) \<Rightarrow> nat \<Rightarrow> bool list \<Rightarrow>
    'e clientProcessorFMP4 \<Rightarrow> string list \<Rightarrow>
    proc_error \<times> 'e clientProcessorFMP4 \<times> PartTrack list" where
  "run PartRead now sched p [] = (ErrTerminated, p, [])"
| "run PartRead now sched p (seg # segs) =
     (case processSegment PartRead now sched p seg of
        (Some err, p', sched', ts) \<Rightarrow> (err, p', ts)
      | (None, p', sched', ts) \<Rightarrow>
          (case run PartRead now sched' p' segs of (err, p'', ts') \<Rightarrow> (err, p'', ts @ ts')))"

text \<open>The subparts of a sequence of segments, in the order the processor meets them.\<close>

definition subpartsOf :: "(string \<Rightarrow> string + PartTrack list) \<Rightarrow> string list \<Rightarrow> PartTrack list" where
  "subpartsOf PartRead segs =
     concat (map (\<lambda>b. case PartRead b of Inl _ \<Rightarrow> [] | Inr ts \<Rightarrow> ts) segs)"

text \<open>
  The zero point of the clock for a processor that is about to meet the given subparts:
  the recorded start if the clock is initialized, else the base time of the first subpart.
\<close>

definition clockStart :: "'e clientProcessorFMP4 \<Rightarrow> PartTrack list \<Rightarrow> 64 word" where
  "clockStart p tracks =
     (if clockInitialized p then startBaseTime p
      else (case tracks of [] \<Rightarrow> startBaseTime p | t # _ \<Rightarrow> BaseTime t))"

text \<open>The tracks in a processor's video and audio channel (\<open>None\<close> without a processor).\<close>

definition videoQueue :: "'e clientProcessorFMP4 \<Rightarrow> PartTrack list option" where
  "videoQueue p = map_option queue (videoProc p)"

definition audioQueue :: "'e clientProcessorFMP4 \<Rightarrow> PartTrack list option" where
  "audioQueue p = map_option queue (audioProc p)"

subsection \<open>A stream with one video and one audio track, for the examples\<close>

definition exampleInitRead :: "string \<Rightarrow> string + InitTrack option \<times> InitTrack option" where
  "exampleInitRead initFile =
     Inr (Some \<lparr>InitTrack_ID = 1, TimeScale = 90000, Track = TrackH264\<rparr>,
          Some \<lparr>InitTrack_ID = 2, TimeScale = 48000, Track = TrackMPEG4Audio\<rparr>)"

definition examplePartRead :: "string \<Rightarrow> string + PartTrack list" where
  "examplePartRead byts =
     (if byts = ''seg1'' then Inr [\<lparr>ID = 1, BaseTime = 1000\<rparr>, \<lparr>ID = 2, BaseTime = 990\<rparr>]
      else if byts = ''seg2'' then Inr [\<lparr>ID = 1, BaseTime = 1040\<rparr>, \<lparr>ID = 2, BaseTime = 1030\<rparr>]
      else Inl ''invalid part'')"

definition exampleAVCCUnmarshal :: "string \<Rightarrow> string + string list" where
  "exampleAVCCUnmarshal payload = Inr [payload]"

definition acceptTracks :: "InitTrack option \<Rightarrow> InitTrack option \<Rightarrow> string option" where
  "acceptTracks iv ia = None"

text \<open>User callbacks whose effect is a line of text naming the callback.\<close>

definition noteVideo :: "int \<Rightarrow> string list \<Rightarrow> string list" where
  "noteVideo pts nalus = [''video'']"

definition noteAudio :: "int \<Rightarrow> string \<Rightarrow> string list" where
  "noteAudio pts payload = [''audio'']"

definition exampleProcessor :: "proc_error + string clientProcessorFMP4" where
  "exampleProcessor =
     newClientProcessorFMP4 exampleInitRead exampleAVCCUnmarshal ''init'' acceptTracks
       noteVideo noteAudio"

text \<open>A server with two connections, the second with an established peer connection.\<close>

definition exampleStore :: "addr \<Rightarrow> webRTCConn" where
  "exampleStore c =
     (if c = 1 then \<lparr>uuid = ''aaaa'', created = 100, remoteAddr = ''198.51.100.1:5000'',
                     safePC = None\<rparr>
      else \<lparr>uuid = ''bbbb'', created = 200, remoteAddr = ''198.51.100.2:6000'',
            safePC = Some \<lparr>localCandidate = ''host/udp/10.0.0.1/8189'',
                            remoteCandidate = ''host/udp/198.51.100.2/7000'',
                            bytesReceived = 10, bytesSent = 2000\<rparr>\<rparr>)"

definition exampleServer :: webRTCServer where
  "exampleServer = \<lparr>conns = {1, 2}, store = exampleStore, closeCalls = []\<rparr>"

text \<open>
  What a stretch of the processor's execution from \<open>p\<close> to \<open>p'\<close> that reached the subparts
  \<open>out\<close> did to the two channels: the init tracks, the audio channel and the audio callback
  are as before, and the video channel has grown by video subparts of \<open>out\<close> (all of them
  when \<open>complete\<close>).
\<close>

definition forwarded ::
  "'e clientProcessorFMP4 \<Rightarrow> 'e clientProcessorFMP4 \<Rightarrow> PartTrack list \<Rightarrow> bool \<Rightarrow> bool" where
  "forwarded p p' out complete =
     (initVideoTrack p' = initVideoTrack p
    \<and> audioQueue p' = audioQueue p
    \<and> map_option onData (audioProc p') = map_option onData (audioProc p)
    \<and> (case videoQueue p of
         None \<Rightarrow> videoQueue p' = None
       | Some q \<Rightarrow> (\<exists>fw. videoQueue p' = Some (q @ fw)
                    \<and> set fw \<subseteq> {t \<in> set out. isVideoSubpart p t}
                    \<and> (complete \<longrightarrow> fw = filter (isVideoSubpart p) out))))"

section \<open>Properties of the HTTP handler\<close>

lemma HasSuffix_Cons: "HasSuffix pa x \<Longrightarrow> HasSuffix (c # pa) x"
  by (auto simp: HasSuffix_def Suc_diff_le)

lemmas handler_defs =
  onRequest_def pathSwitch_def HasSuffix_def TrimSuffix_def resolveAndServe_def BasicAuth_def
  confReq_def WriteHeader_def setHeader_def Log_def emptyResponse_def Let_def
  statusOf_def headerOf_def loggedOf_def clientView_def ErrAuthentication_Error_def


lemmas guarded_defs = guardedManager_def guardedServer_def getRequestFrom_def

lemma headerOf_clientView:
  "headerOf x k = (case clientView x of Inl e \<Rightarrow> None | Inr v \<Rightarrow> fst v k)"
  by (simp add: headerOf_def clientView_def split: sum.splits)




text \<open>
  A GET whose path is not empty, does not end in \<open>/ws\<close>, \<open>/publish\<close>, \<open>/publish/ws\<close> or a
  slash, and is not \<open>favicon.ico\<close> behind its first character, is answered with 301 and a
  \<open>Location\<close> header that is the path behind its first character between two slashes.
  The answer is the same whatever the path manager is: the redirect comes before any path
  resolution or authorization.
\<close>

theorem onRequest_redirect:
  assumes "reqMethod r = ''GET''" and "urlPath r = c # pa"
    and "\<not> HasSuffix (urlPath r) ''/ws''" and "\<not> HasSuffix (urlPath r) ''/publish''"
    and "\<not> HasSuffix (urlPath r) ''/publish/ws''" and "\<not> HasSuffix (urlPath r) ''/''"
    and "pa \<noteq> ''favicon.ico''"
  shows "statusOf (onRequest s r) = Some 301
     \<and> headerOf (onRequest s r) ''Location'' = Some (''/'' @ pa @ ''/'')
     \<and> onRequest (s\<lparr>getPathConf := g\<rparr>) r = onRequest s r"
proof -
  have "pathSwitch pa = Redirect pa"
    using assms HasSuffix_Cons [of pa _ c] by (auto simp: pathSwitch_def)
  then show ?thesis using assms(1,2)
    by (simp add: statusOf_def headerOf_def onRequest_def WriteHeader_def setHeader_def)
qed

text \<open>
  Claim C10 says this of every GET whose path does not end in \<open>/ws\<close>, \<open>/publish\<close>,
  \<open>/publish/ws\<close> or a slash and is not \<open>favicon.ico\<close>. The empty path is such a path, and
  there the handler does not answer 301: \<open>Path[1:]\<close> is out of range and the handler
  panics before it writes a status.
\<close>

theorem onRequest_empty_path_panics:
  "\<not> HasSuffix [] ''/ws'' \<and> \<not> HasSuffix [] ''/publish'' \<and> \<not> HasSuffix [] ''/publish/ws''
   \<and> \<not> HasSuffix [] ''/'' \<and> [] \<noteq> ''favicon.ico''
   \<and> onRequest guardedServer (getRequestFrom ''192.0.2.7'' [] None) = Inl SliceBoundsOutOfRange
   \<and> statusOf (onRequest guardedServer (getRequestFrom ''192.0.2.7'' [] None)) \<noteq> Some 301"
  by (simp add: HasSuffix_def onRequest_def getRequestFrom_def statusOf_def)

text \<open>
  Claim C5, as amended. Take any two GET requests that reach path resolution and are
  denied with an authentication error, on servers with the same allowed origin; the
  paths, addresses, credentials, path managers and reasons of the denials may all differ.
  If both requests carried Basic credentials, or neither did, the two requesters receive
  the same response: the same headers, status and body.
\<close>

theorem onRequest_denials_alike:
  assumes "reqMethod r1 = ''GET''" and "urlPath r1 = c1 # pa1"
    and "pathSwitch pa1 = Matched d1 f1 pub1" and "TrimSuffix d1 ''/'' \<noteq> []"
    and "getPathConf s1 (confReq r1 (TrimSuffix d1 ''/'') pub1) = Some (pathErrAuth w1)"
    and "reqMethod r2 = ''GET''" and "urlPath r2 = c2 # pa2"
    and "pathSwitch pa2 = Matched d2 f2 pub2" and "TrimSuffix d2 ''/'' \<noteq> []"
    and "getPathConf s2 (confReq r2 (TrimSuffix d2 ''/'') pub2) = Some (pathErrAuth w2)"
    and "allowOrigin s1 = allowOrigin s2"
    and "(basicAuth r1 = None) = (basicAuth r2 = None)"
  shows "clientView (onRequest s1 r1) = clientView (onRequest s2 r2)"
  using assms
  by (auto simp: clientView_def onRequest_def
        resolveAndServe_def BasicAuth_def
        WriteHeader_def setHeader_def Log_def emptyResponse_def Let_def
      split: path_error.splits option.splits prod.splits)

text \<open>
  The amended claim at two requests with credentials on the guarded path, one refused for
  its address and one for its password: the responses are the same, and the two reasons
  are in the server log.
\<close>

theorem onRequest_denials_alike_witness:
  "clientView (onRequest guardedServer
                 (getRequestFrom ''203.0.113.9'' ''/secure/'' (Some (''u'', ''p''))))
   = clientView (onRequest guardedServer
                 (getRequestFrom ''192.0.2.7'' ''/secure/ws'' (Some (''u'', ''x''))))
   \<and> loggedOf (onRequest guardedServer
                 (getRequestFrom ''203.0.113.9'' ''/secure/'' (Some (''u'', ''p''))))
       = [''[WebRTC] authentication error: authentication failed: ip not allowed'']
   \<and> loggedOf (onRequest guardedServer
                 (getRequestFrom ''192.0.2.7'' ''/secure/ws'' (Some (''u'', ''x''))))
       = [''[WebRTC] authentication error: authentication failed: wrong credentials'']"
proof -
  have l: "loggedOf (onRequest guardedServer
                 (getRequestFrom ''203.0.113.9'' ''/secure/'' (Some (''u'', ''p''))))
       = [''[WebRTC] authentication error: authentication failed: ip not allowed'']
   \<and> loggedOf (onRequest guardedServer
                 (getRequestFrom ''192.0.2.7'' ''/secure/ws'' (Some (''u'', ''x''))))
       = [''[WebRTC] authentication error: authentication failed: wrong credentials'']"
    by (simp add: handler_defs guarded_defs)
  have "clientView (onRequest guardedServer
                 (getRequestFrom ''203.0.113.9'' ''/secure/'' (Some (''u'', ''p''))))
   = clientView (onRequest guardedServer
                 (getRequestFrom ''192.0.2.7'' ''/secure/ws'' (Some (''u'', ''x''))))"
    using onRequest_denials_alike
      [of "getRequestFrom ''203.0.113.9'' ''/secure/'' (Some (''u'', ''p''))" "CHR ''/''"
          "''secure/''" "''secure/''" "[]" False guardedServer "\<lparr>Message = ''ip not allowed''\<rparr>"
          "getRequestFrom ''192.0.2.7'' ''/secure/ws'' (Some (''u'', ''x''))" "CHR ''/''"
          "''secure/ws''" "''secure''" "''ws''" False guardedServer
          "\<lparr>Message = ''wrong credentials''\<rparr>"]
    by (simp add: guarded_defs pathSwitch_def HasSuffix_def TrimSuffix_def confReq_def
        BasicAuth_def)
  with l show ?thesis by blast
qed

text \<open>
  Claim C5 as stated says that any two denials are indistinguishable to the requester.
  A denial of a request without credentials carries the challenge header and a denial of
  a request with credentials does not.
\<close>

theorem onRequest_denials_differ:
  "statusOf (onRequest guardedServer (getRequestFrom ''192.0.2.7'' ''/secure/'' None)) = Some 401
   \<and> statusOf (onRequest guardedServer
                 (getRequestFrom ''192.0.2.7'' ''/secure/'' (Some (''u'', ''x'')))) = Some 401
   \<and> headerOf (onRequest guardedServer (getRequestFrom ''192.0.2.7'' ''/secure/'' None))
        ''WWW-Authenticate'' = Some ''Basic realm=\"mediamtx\"''
   \<and> headerOf (onRequest guardedServer
                 (getRequestFrom ''192.0.2.7'' ''/secure/'' (Some (''u'', ''x''))))
        ''WWW-Authenticate'' = None
   \<and> clientView (onRequest guardedServer (getRequestFrom ''192.0.2.7'' ''/secure/'' None))
       \<noteq> clientView (onRequest guardedServer
                 (getRequestFrom ''192.0.2.7'' ''/secure/'' (Some (''u'', ''x''))))"
proof -
  have h: "headerOf (onRequest guardedServer (getRequestFrom ''192.0.2.7'' ''/secure/'' None))
        ''WWW-Authenticate'' = Some ''Basic realm=\"mediamtx\"''
   \<and> headerOf (onRequest guardedServer
                 (getRequestFrom ''192.0.2.7'' ''/secure/'' (Some (''u'', ''x''))))
        ''WWW-Authenticate'' = None"
    by (simp add: handler_defs guarded_defs)
  have s: "statusOf (onRequest guardedServer (getRequestFrom ''192.0.2.7'' ''/secure/'' None)) = Some 401
   \<and> statusOf (onRequest guardedServer
                 (getRequestFrom ''192.0.2.7'' ''/secure/'' (Some (''u'', ''x'')))) = Some 401"
    by (simp add: handler_defs guarded_defs)
  have "clientView (onRequest guardedServer (getRequestFrom ''192.0.2.7'' ''/secure/'' None))
       \<noteq> clientView (onRequest guardedServer
                 (getRequestFrom ''192.0.2.7'' ''/secure/'' (Some (''u'', ''x''))))"
    using h by (auto simp: headerOf_clientView)
  with h s show ?thesis by blast
qed

section \<open>Properties of the actor loop\<close>

lemma kickLoop_None: "kickLoop h ident cs = None \<longleftrightarrow> (\<forall>c \<in> set cs. uuid (h c) \<noteq> ident)"
  by (induction cs) auto

lemma kickLoop_Some: "kickLoop h ident cs = Some c \<Longrightarrow> c \<in> set cs \<and> uuid (h c) = ident"
  by (induction cs) (auto split: if_splits)

lemma listLoop_other:
  "\<forall>c \<in> set cs. uuid (h c) \<noteq> k \<Longrightarrow> listLoop h cs items k = items k"
  by (induction cs arbitrary: items) auto

lemma listLoop_member:
  "c \<in> set cs \<Longrightarrow> inj_on (\<lambda>c. uuid (h c)) (set cs) \<Longrightarrow>
   listLoop h cs items (uuid (h c)) = Some (listItem (h c))"
proof (induction cs arbitrary: items)
  case Nil
  then show ?case by simp
next
  case (Cons a cs)
  show ?case
  proof (cases "c \<in> set cs")
    case True
    moreover have "inj_on (\<lambda>c. uuid (h c)) (set cs)"
      using Cons.prems(2) by (simp add: inj_on_def)
    ultimately show ?thesis using Cons.IH by simp
  next
    case False
    then have ca: "c = a" using Cons.prems(1) by simp
    have "\<forall>x \<in> set cs. uuid (h x) \<noteq> uuid (h a)"
      using Cons.prems(2) False ca by (auto simp: inj_on_def)
    then show ?thesis using ca by (simp add: listLoop_other)
  qed
qed

lemma listLoop_dom: "dom (listLoop h cs items) = dom items \<union> (\<lambda>c. uuid (h c)) ` set cs"
  by (induction cs arbitrary: items) auto

lemmas example_server_defs =
  exampleServer_def exampleStore_def enumerates_def apiConnsKick_def onAPIConnsKick_def
  apiConnsList_def onAPIConnsList_def listItem_def

lemma kick_absent:
  "enumerates order s \<Longrightarrow> \<forall>x \<in> conns s. uuid (store s x) \<noteq> ident \<Longrightarrow>
   apiConnsKick Delivered order ident s = (s, Some ''not found'')"
proof -
  assume "enumerates order s" "\<forall>x \<in> conns s. uuid (store s x) \<noteq> ident"
  then have "kickLoop (store s) ident order = None"
    by (simp add: kickLoop_None enumerates_def)
  then show ?thesis by (simp add: apiConnsKick_def onAPIConnsKick_def)
qed

lemma kick_present_or_absent:
  assumes en: "enumerates order s" and inj: "inj_on (\<lambda>c. uuid (store s c)) (conns s)"
  shows "((\<forall>c \<in> conns s. uuid (store s c) \<noteq> ident) \<longrightarrow>
            apiConnsKick Delivered order ident s = (s, Some ''not found''))
       \<and> (\<forall>c \<in> conns s. uuid (store s c) = ident \<longrightarrow>
            (\<exists>s'. apiConnsKick Delivered order ident s = (s', None)
               \<and> conns s' = conns s - {c} \<and> closeCalls s' = closeCalls s @ [c]
               \<and> store s' = store s
               \<and> (\<forall>order'. enumerates order' s' \<longrightarrow>
                     apiConnsKick Delivered order' ident s' = (s', Some ''not found''))))"
proof (intro conjI impI ballI)
  assume "\<forall>c \<in> conns s. uuid (store s c) \<noteq> ident"
  then have "kickLoop (store s) ident order = None"
    using en by (simp add: kickLoop_None enumerates_def)
  then show "apiConnsKick Delivered order ident s = (s, Some ''not found'')"
    by (simp add: apiConnsKick_def onAPIConnsKick_def)
next
  fix c assume c: "c \<in> conns s" and u: "uuid (store s c) = ident"
  obtain c' where k: "kickLoop (store s) ident order = Some c'"
    using c u en kickLoop_None [of "store s" ident order]
    by (cases "kickLoop (store s) ident order") (auto simp: enumerates_def)
  from kickLoop_Some [OF k] en have "c' \<in> conns s" "uuid (store s c') = ident"
    by (auto simp: enumerates_def)
  with inj c u have cc: "c' = c" by (auto simp: inj_on_def)
  define s' where "s' = s\<lparr>conns := conns s - {c}, closeCalls := closeCalls s @ [c]\<rparr>"
  have r: "apiConnsKick Delivered order ident s = (s', None)"
    using k cc by (simp add: apiConnsKick_def onAPIConnsKick_def s'_def)
  have none: "\<forall>x \<in> conns s'. uuid (store s' x) \<noteq> ident"
    using inj c u by (auto simp: s'_def inj_on_def)
  have again: "apiConnsKick Delivered order' ident s' = (s', Some ''not found'')"
    if "enumerates order' s'" for order'
  proof -
    have "kickLoop (store s') ident order' = None"
      using that none by (simp add: kickLoop_None enumerates_def)
    then show ?thesis by (simp add: apiConnsKick_def onAPIConnsKick_def)
  qed
  show "\<exists>s'. apiConnsKick Delivered order ident s = (s', None)
               \<and> conns s' = conns s - {c} \<and> closeCalls s' = closeCalls s @ [c]
               \<and> store s' = store s
               \<and> (\<forall>order'. enumerates order' s' \<longrightarrow>
                     apiConnsKick Delivered order' ident s' = (s', Some ''not found''))"
    using r again by (intro exI [of _ s']) (simp add: s'_def)
qed

lemma kick_after_close:
  assumes en: "enumerates order s" and inj: "inj_on (\<lambda>c. uuid (store s c)) (conns s)"
  shows "(\<forall>c \<in> conns s.
            conns (connClose Delivered c s) = conns s - {c}
          \<and> store (connClose Delivered c s) = store s
          \<and> closeCalls (connClose Delivered c s) = closeCalls s
          \<and> (\<forall>order'. enumerates order' (connClose Delivered c s) \<longrightarrow>
                apiConnsKick Delivered order' (uuid (store s c)) (connClose Delivered c s)
                  = (connClose Delivered c s, Some ''not found'')))"
proof (intro ballI conjI allI impI)
  fix c order' assume c: "c \<in> conns s" and e: "enumerates order' (connClose Delivered c s)"
  have "\<forall>x \<in> conns (connClose Delivered c s).
          uuid (store (connClose Delivered c s) x) \<noteq> uuid (store s c)"
    using inj c by (auto simp: connClose_def onConnClose_def inj_on_def)
  from kick_absent [OF e this]
  show "apiConnsKick Delivered order' (uuid (store s c)) (connClose Delivered c s)
                  = (connClose Delivered c s, Some ''not found'')" .
qed (simp_all add: connClose_def onConnClose_def)

text \<open>
  Claim C3. On a server whose connections have pairwise different UUIDs: a kick of an id
  that no connection in the set has returns "not found" and changes nothing; a kick of the
  id of a connection in the set succeeds, removes exactly that connection from the set and
  calls its \<open>close()\<close>; after it, a second kick of the same id returns "not found" and
  changes nothing. A connection that has closed, and so has gone through \<open>connClose\<close>, is
  no longer in the set, and a kick of its id returns "not found" and changes nothing. All
  this holds for every order in which the loops iterate over the set.
\<close>

theorem apiConnsKick_twice:
  assumes en: "enumerates order s" and inj: "inj_on (\<lambda>c. uuid (store s c)) (conns s)"
  shows "((\<forall>c \<in> conns s. uuid (store s c) \<noteq> ident) \<longrightarrow>
            apiConnsKick Delivered order ident s = (s, Some ''not found''))
       \<and> (\<forall>c \<in> conns s. uuid (store s c) = ident \<longrightarrow>
            (\<exists>s'. apiConnsKick Delivered order ident s = (s', None)
               \<and> conns s' = conns s - {c} \<and> closeCalls s' = closeCalls s @ [c]
               \<and> store s' = store s
               \<and> (\<forall>order'. enumerates order' s' \<longrightarrow>
                     apiConnsKick Delivered order' ident s' = (s', Some ''not found''))))
       \<and> (\<forall>c \<in> conns s.
            conns (connClose Delivered c s) = conns s - {c}
          \<and> store (connClose Delivered c s) = store s
          \<and> closeCalls (connClose Delivered c s) = closeCalls s
          \<and> (\<forall>order'. enumerates order' (connClose Delivered c s) \<longrightarrow>
                apiConnsKick Delivered order' (uuid (store s c)) (connClose Delivered c s)
                  = (connClose Delivered c s, Some ''not found'')))"
  using kick_present_or_absent [OF en inj, of ident] kick_after_close [OF en inj]
  by blast

text \<open>
  Claim C3 on the example server: the first kick of \<open>aaaa\<close> removes and closes connection
  1, the second finds nothing, an id that was never there is not found, and after
  connection 2 has closed a kick of its id \<open>bbbb\<close> is not found either.
\<close>

theorem apiConnsKick_twice_witness:
  "enumerates [2, 1] exampleServer
   \<and> inj_on (\<lambda>c. uuid (store exampleServer c)) (conns exampleServer)
   \<and> snd (apiConnsKick Delivered [2, 1] ''aaaa'' exampleServer) = None
   \<and> conns (fst (apiConnsKick Delivered [2, 1] ''aaaa'' exampleServer)) = {2}
   \<and> closeCalls (fst (apiConnsKick Delivered [2, 1] ''aaaa'' exampleServer)) = [1]
   \<and> apiConnsKick Delivered [2] ''aaaa'' (fst (apiConnsKick Delivered [2, 1] ''aaaa'' exampleServer))
       = (fst (apiConnsKick Delivered [2, 1] ''aaaa'' exampleServer), Some ''not found'')
   \<and> apiConnsKick Delivered [2, 1] ''cccc'' exampleServer = (exampleServer, Some ''not found'')
   \<and> conns (connClose Delivered 2 exampleServer) = {1}
   \<and> apiConnsKick Delivered [1] ''bbbb'' (connClose Delivered 2 exampleServer)
       = (connClose Delivered 2 exampleServer, Some ''not found'')"
proof -
  have e: "enumerates [2, 1] exampleServer"
    by (auto simp: exampleServer_def enumerates_def)
  have i: "inj_on (\<lambda>c. uuid (store exampleServer c)) (conns exampleServer)"
    by (simp add: exampleServer_def exampleStore_def inj_on_def)
  have k: "apiConnsKick Delivered [2, 1] ''aaaa'' exampleServer
         = (exampleServer\<lparr>conns := {2}, closeCalls := [1]\<rparr>, None)"
    by (simp add: example_server_defs insert_Diff_if)
  have m: "(1::nat) \<in> conns exampleServer \<and> uuid (store exampleServer 1) = ''aaaa''"
    by (simp add: exampleServer_def exampleStore_def)
  have m2: "(2::nat) \<in> conns exampleServer \<and> uuid (store exampleServer 2) = ''bbbb''"
    by (simp add: exampleServer_def exampleStore_def)
  have n: "\<forall>c \<in> conns exampleServer. uuid (store exampleServer c) \<noteq> ''cccc''"
    by (simp add: exampleServer_def exampleStore_def)
  have e2: "enumerates [2] (exampleServer\<lparr>conns := {2}, closeCalls := [1]\<rparr>)"
    by (simp add: enumerates_def)
  have c2: "conns (connClose Delivered 2 exampleServer) = {1}"
    by (auto simp: connClose_def onConnClose_def exampleServer_def)
  have e3: "enumerates [1] (connClose Delivered 2 exampleServer)"
    using c2 by (simp add: enumerates_def)
  note T = apiConnsKick_twice [OF e i, of "''aaaa''"]
  have U: "apiConnsKick Delivered [2, 1] ''cccc'' exampleServer = (exampleServer, Some ''not found'')"
    using apiConnsKick_twice [OF e i, of "''cccc''"] n by blast
  from T [THEN conjunct2, THEN conjunct1, rule_format, of 1] m k e2
  have V: "apiConnsKick Delivered [2] ''aaaa'' (exampleServer\<lparr>conns := {2}, closeCalls := [1]\<rparr>)
      = (exampleServer\<lparr>conns := {2}, closeCalls := [1]\<rparr>, Some ''not found'')"
    by auto
  from T [THEN conjunct2, THEN conjunct2, rule_format, of 2] m2 e3
  have W: "apiConnsKick Delivered [1] ''bbbb'' (connClose Delivered 2 exampleServer)
       = (connClose Delivered 2 exampleServer, Some ''not found'')"
    by auto
  show ?thesis using e i k U V W c2 by simp
qed

text \<open>
  Claim C7. On a server whose connections have pairwise different UUIDs, the list
  operation returns one item per tracked connection, keyed by the connection's UUID, with
  the connection's created timestamp and remote address; without a peer connection the
  item says not established and zero bytes received and sent, and with one it carries the
  peer connection's counters.
\<close>

theorem apiConnsList_items:
  assumes en: "enumerates order s" and inj: "inj_on (\<lambda>c. uuid (store s c)) (conns s)"
    and c: "c \<in> conns s"
  shows "\<exists>items it. apiConnsList Delivered order s = (Some items, None)
      \<and> dom items = (\<lambda>c. uuid (store s c)) ` conns s
      \<and> items (uuid (store s c)) = Some it
      \<and> Created it = created (store s c) \<and> RemoteAddr it = remoteAddr (store s c)
      \<and> (case safePC (store s c) of
           None \<Rightarrow> \<not> PeerConnectionEstablished it \<and> BytesReceived it = 0 \<and> BytesSent it = 0
         | Some pc \<Rightarrow> PeerConnectionEstablished it \<and> BytesReceived it = bytesReceived pc
              \<and> BytesSent it = bytesSent pc)"
proof -
  have "onAPIConnsList order s (uuid (store s c)) = Some (listItem (store s c))"
    using en inj c by (simp add: onAPIConnsList_def enumerates_def listLoop_member)
  moreover have "dom (onAPIConnsList order s) = (\<lambda>c. uuid (store s c)) ` conns s"
    using en by (simp add: onAPIConnsList_def enumerates_def listLoop_dom)
  ultimately show ?thesis
    by (auto simp: apiConnsList_def listItem_def split: option.splits)
qed

text \<open>
  Claim C7 on the example server, at connection 1, which has no peer connection.
\<close>

theorem apiConnsList_items_witness:
  "enumerates [2, 1] exampleServer
   \<and> inj_on (\<lambda>c. uuid (store exampleServer c)) (conns exampleServer)
   \<and> (\<exists>items it. apiConnsList Delivered [2, 1] exampleServer = (Some items, None)
        \<and> dom items = {''aaaa'', ''bbbb''}
        \<and> items ''aaaa'' = Some it
        \<and> Created it = 100 \<and> RemoteAddr it = ''198.51.100.1:5000''
        \<and> \<not> PeerConnectionEstablished it \<and> BytesReceived it = 0 \<and> BytesSent it = 0)"
proof -
  have e: "enumerates [2, 1] exampleServer"
    by (auto simp: exampleServer_def enumerates_def)
  have i: "inj_on (\<lambda>c. uuid (store exampleServer c)) (conns exampleServer)"
    by (simp add: exampleServer_def exampleStore_def inj_on_def)
  have m: "(1::nat) \<in> conns exampleServer" by (simp add: exampleServer_def)
  from apiConnsList_items [OF e i m] e i show ?thesis
    by (simp add: exampleServer_def exampleStore_def)
qed

section \<open>Properties of the fMP4 client processor\<close>

subsection \<open>The clock\<close>

lemma initClock_clock:
  "clockInitialized (initClock now p t)"
  "startBaseTime (initClock now p t) = clockStart p (t # ts)"
  by (auto simp: initClock_def clockStart_def)

lemma initClock_initVideoTrack [simp]: "initVideoTrack (initClock now p t) = initVideoTrack p"
  by (simp add: initClock_def)

lemma clockStart_initialized: "clockInitialized p \<Longrightarrow> clockStart p ts = startBaseTime p"
  by (simp add: clockStart_def)

lemma initClock_idem: "clockInitialized p \<Longrightarrow> initClock now p t = p"
  by (simp add: initClock_def)

lemma trackLoop_initialized:
  "clockInitialized p \<Longrightarrow> trackLoop now sched p tracks n = (e, p', sched', out, m) \<Longrightarrow>
     length out \<le> length tracks
   \<and> out = map (rebaseTrack (startBaseTime p)) (take (length out) tracks)
   \<and> clockInitialized p' \<and> startBaseTime p' = startBaseTime p
   \<and> (tracks \<noteq> [] \<longrightarrow> out \<noteq> [])
   \<and> (e = None \<longrightarrow> length out = length tracks)
   \<and> (sched = [] \<longrightarrow> sched' = [] \<and> e \<noteq> Some ErrTerminated)"
proof (induction tracks arbitrary: sched p n e p' sched' out m)
  case Nil
  then show ?case by simp
next
  case (Cons t ts)
  let ?t' = "rebaseTrack (startBaseTime p) t"
  have ic: "initClock now p t = p" using Cons.prems(1) by (simp add: initClock_idem)
  show ?case
  proof (cases "isVideoSubpart p ?t'")
    case False
    then obtain r where r: "trackLoop now sched p ts n = r" and res: "withTrack ?t' r = (e, p', sched', out, m)"
      using Cons.prems(2) ic by (simp add: Let_def)
    obtain e1 p1 s1 o1 m1 where r1: "r = (e1, p1, s1, o1, m1)" by (cases r) auto
    from res r1 have eq: "e = e1" "p' = p1" "sched' = s1" "out = ?t' # o1" "m = m1"
      by (simp_all add: withTrack_def)
    from Cons.IH [OF Cons.prems(1) r [unfolded r1]] eq show ?thesis by simp
  next
    case True
    show ?thesis
    proof (cases "videoProc p")
      case None
      then show ?thesis using Cons.prems(2) ic True Cons.prems(1) by (auto simp: Let_def)
    next
      case (Some vp)
      show ?thesis
      proof (cases "ctxDoneTaken sched")
        case True
        then have "sched \<noteq> []" by (auto simp: ctxDoneTaken_def)
        then show ?thesis using Cons.prems ic \<open>isVideoSubpart p ?t'\<close> Some True
          by (auto simp: Let_def)
      next
        case False
        let ?p2 = "p\<lparr>videoProc := Some (vp\<lparr>queue := queue vp @ [?t']\<rparr>)\<rparr>"
        obtain r where r: "trackLoop now (tl sched) ?p2 ts (Suc n) = r"
           and res: "withTrack ?t' r = (e, p', sched', out, m)"
          using Cons.prems(2) ic \<open>isVideoSubpart p ?t'\<close> Some False by (simp add: Let_def)
        obtain e1 p1 s1 o1 m1 where r1: "r = (e1, p1, s1, o1, m1)" by (cases r) auto
        from res r1 have eq: "e = e1" "p' = p1" "sched' = s1" "out = ?t' # o1" "m = m1"
          by (simp_all add: withTrack_def)
        have ci: "clockInitialized ?p2" using Cons.prems(1) by simp
        from Cons.IH [OF ci r [unfolded r1]] eq show ?thesis by simp
      qed
    qed
  qed
qed

lemma trackLoop_first:
  "trackLoop now sched p (t # ts) n = trackLoop now sched (initClock now p t) (t # ts) n"
proof -
  have "initClock now (initClock now p t) t = initClock now p t"
    by (simp add: initClock_def)
  then show ?thesis by (simp add: Let_def)
qed

lemma trackLoop_clock:
  assumes "trackLoop now sched p tracks n = (e, p', sched', out, m)"
  shows "length out \<le> length tracks
   \<and> out = map (rebaseTrack (clockStart p tracks)) (take (length out) tracks)
   \<and> clockInitialized p' = (clockInitialized p \<or> tracks \<noteq> [])
   \<and> startBaseTime p' = clockStart p tracks
   \<and> (tracks \<noteq> [] \<longrightarrow> out \<noteq> [])
   \<and> (e = None \<longrightarrow> length out = length tracks)
   \<and> (sched = [] \<longrightarrow> sched' = [] \<and> e \<noteq> Some ErrTerminated)"
proof (cases tracks)
  case Nil
  then show ?thesis using assms by (auto simp: clockStart_def)
next
  case (Cons t ts)
  have "trackLoop now sched (initClock now p t) (t # ts) n = (e, p', sched', out, m)"
    using assms Cons trackLoop_first [of now sched p t ts n] by simp
  from trackLoop_initialized [OF initClock_clock(1) this] show ?thesis
    using Cons initClock_clock(2) [of now p t ts] by (simp add: initClock_clock(1))
qed

lemma waitLoop_nocancel: "waitLoop [] n = (None, [])"
  by (induction n) (auto simp: ctxDoneTaken_def)

lemma processSegment_clock:
  assumes "processSegment PartRead now sched p byts = (e, p', sched', out)"
  shows "length out \<le> length (subpartsOf PartRead [byts])
   \<and> out = map (rebaseTrack (clockStart p (subpartsOf PartRead [byts])))
             (take (length out) (subpartsOf PartRead [byts]))
   \<and> clockInitialized p' = (clockInitialized p \<or> out \<noteq> [])
   \<and> startBaseTime p' = clockStart p (subpartsOf PartRead [byts])
   \<and> (e = None \<longrightarrow> length out = length (subpartsOf PartRead [byts]))
   \<and> (sched = [] \<longrightarrow> sched' = [] \<and> e \<noteq> Some ErrTerminated)"
proof (cases "PartRead byts")
  case (Inl err)
  then show ?thesis using assms by (auto simp: processSegment_def subpartsOf_def clockStart_def)
next
  case (Inr subparts)
  obtain e1 p1 s1 o1 m1 where r1: "trackLoop now sched p subparts 0 = (e1, p1, s1, o1, m1)"
    by (cases "trackLoop now sched p subparts 0") auto
  note tl = trackLoop_clock [OF r1]
  have sp: "subpartsOf PartRead [byts] = subparts" using Inr by (simp add: subpartsOf_def)
  show ?thesis
  proof (cases e1)
    case (Some err)
    then have "e = Some err" "p' = p1" "sched' = s1" "out = o1"
      using assms Inr r1 by (simp_all add: processSegment_def)
    then show ?thesis using tl sp Some by auto
  next
    case None
    obtain e2 s2 where w: "waitLoop s1 m1 = (e2, s2)" by (cases "waitLoop s1 m1") auto
    then have eq: "e = e2" "p' = p1" "sched' = s2" "out = o1"
      using assms Inr r1 None by (simp_all add: processSegment_def)
    have "sched = [] \<longrightarrow> e2 = None \<and> s2 = []" using tl w by (auto simp: waitLoop_nocancel)
    then show ?thesis using tl sp None eq by auto
  qed
qed

lemma subpartsOf_Cons:
  "subpartsOf PartRead (seg # segs) = subpartsOf PartRead [seg] @ subpartsOf PartRead segs"
  by (simp add: subpartsOf_def)

lemma clockStart_append:
  "xs \<noteq> [] \<Longrightarrow> clockStart p (xs @ ys) = clockStart p xs"
  by (cases xs) (auto simp: clockStart_def)

lemma run_clock:
  "run PartRead now sched p segs = (err, p', out) \<Longrightarrow>
     length out \<le> length (subpartsOf PartRead segs)
   \<and> out = map (rebaseTrack (clockStart p (subpartsOf PartRead segs)))
             (take (length out) (subpartsOf PartRead segs))
   \<and> clockInitialized p' = (clockInitialized p \<or> out \<noteq> [])
   \<and> (clockInitialized p' \<longrightarrow> startBaseTime p' = clockStart p (subpartsOf PartRead segs))
   \<and> (sched = [] \<and> err = ErrTerminated \<longrightarrow> length out = length (subpartsOf PartRead segs))"
proof (induction segs arbitrary: sched p err p' out)
  case Nil
  then show ?case by (auto simp: subpartsOf_def clockStart_def)
next
  case (Cons seg segs)
  let ?S = "subpartsOf PartRead [seg]" and ?R = "subpartsOf PartRead segs"
  obtain e1 p1 s1 o1 where ps: "processSegment PartRead now sched p seg = (e1, p1, s1, o1)"
    by (cases "processSegment PartRead now sched p seg") auto
  note P = processSegment_clock [OF ps]
  have all: "subpartsOf PartRead (seg # segs) = ?S @ ?R" by (rule subpartsOf_Cons)
  have cs: "o1 \<noteq> [] \<Longrightarrow> clockStart p (?S @ ?R) = clockStart p ?S"
    using P by (intro clockStart_append) auto
  show ?case
  proof (cases e1)
    case (Some e)
    then have eq: "err = e" "p' = p1" "out = o1" using Cons.prems ps by simp_all
    have "e \<noteq> ErrTerminated" if "sched = []" using P that Some by auto
    then show ?thesis unfolding all eq using P cs Some
      by (cases "o1 = []") (auto simp: clockStart_initialized)
  next
    case None
    obtain e2 p2 o2 where rr: "run PartRead now s1 p1 segs = (e2, p2, o2)"
      by (cases "run PartRead now s1 p1 segs") auto
    then have eq: "err = e2" "p' = p2" "out = o1 @ o2" using Cons.prems ps None by simp_all
    note IH = Cons.IH [OF rr]
    have len: "length o1 = length ?S" using P None by simp
    have st: "clockStart p1 ?R = clockStart p (?S @ ?R)"
      using P len by (cases ?S) (auto simp: clockStart_def split: list.splits)
    have o1: "o1 = map (rebaseTrack (clockStart p (?S @ ?R))) ?S"
      using P len cs by (cases "o1 = []") auto
    have o2: "o2 = map (rebaseTrack (clockStart p (?S @ ?R))) (take (length o2) ?R)"
      using IH st by (cases "o2 = []") auto
    have "out = map (rebaseTrack (clockStart p (?S @ ?R))) (take (length out) (?S @ ?R))"
      unfolding eq using o1 o2 len by simp
    moreover have "length out \<le> length (?S @ ?R)" using IH len eq by simp
    moreover have "clockInitialized p' = (clockInitialized p \<or> out \<noteq> [])"
      using IH P eq by auto
    moreover have "clockInitialized p' \<longrightarrow> startBaseTime p' = clockStart p (?S @ ?R)"
      using IH P eq st by (cases "o2 = []") auto
    moreover have "sched = [] \<and> err = ErrTerminated \<longrightarrow> length out = length (?S @ ?R)"
      using IH P eq len None by auto
    ultimately show ?thesis unfolding all by blast
  qed
qed

subsection \<open>The channels\<close>

lemma isVideoSubpart_cong:
  "initVideoTrack p = initVideoTrack q \<Longrightarrow> isVideoSubpart p = isVideoSubpart q"
  by (auto simp: isVideoSubpart_def fun_eq_iff)

lemma isVideoSubpart_rebase [simp]: "isVideoSubpart p (rebaseTrack s t) = isVideoSubpart p t"
  by (simp add: isVideoSubpart_def rebaseTrack_def split: option.splits)

lemma initClock_queues [simp]:
  "videoQueue (initClock now p t) = videoQueue p"
  "audioQueue (initClock now p t) = audioQueue p"
  "map_option onData (audioProc (initClock now p t)) = map_option onData (audioProc p)"
  by (auto simp: initClock_def videoQueue_def audioQueue_def option.map_comp o_def)

lemma isVideoSubpart_initClock [simp]:
  "isVideoSubpart (initClock now p t) = isVideoSubpart p"
  by (rule isVideoSubpart_cong) (simp add: initClock_def)

lemma forwarded_refl: "forwarded p p [] c"
  by (auto simp: forwarded_def split: option.splits)

lemma forwarded_trans:
  "forwarded p p1 o1 c \<Longrightarrow> forwarded p1 p2 o2 c \<Longrightarrow> forwarded p p2 (o1 @ o2) c"
  unfolding forwarded_def
  by (auto split: option.splits simp: isVideoSubpart_cong [of p1 p])

lemma forwarded_initClock: "forwarded p (initClock now p t) [] c"
  by (auto simp: forwarded_def split: option.splits)

lemma forwarded_skip:
  "\<not> isVideoSubpart p t \<Longrightarrow> forwarded p p [t] c"
  by (auto simp: forwarded_def split: option.splits)

lemma forwarded_send:
  "isVideoSubpart p t \<Longrightarrow> videoProc p = Some vp \<Longrightarrow>
   forwarded p (p\<lparr>videoProc := Some (vp\<lparr>queue := queue vp @ [t]\<rparr>)\<rparr>) [t] c"
  by (auto simp: forwarded_def videoQueue_def audioQueue_def isVideoSubpart_def split: option.splits)

lemma forwarded_stop:
  "videoProc p = Some vp \<Longrightarrow> forwarded p p [t] False"
  by (auto simp: forwarded_def videoQueue_def split: option.splits)

lemma forwarded_nil_proc:
  "videoProc p = None \<Longrightarrow> forwarded p p [t] c"
  by (auto simp: forwarded_def videoQueue_def split: option.splits)

lemma trackLoop_forwarded:
  "trackLoop now sched p tracks n = (e, p', sched', out, m) \<Longrightarrow>
   forwarded p p' out (sched = [])"
proof (induction tracks arbitrary: sched p n e p' sched' out m)
  case Nil
  then show ?case by (simp add: forwarded_refl)
next
  case (Cons t ts)
  let ?p1 = "initClock now p t"
  let ?t' = "rebaseTrack (startBaseTime ?p1) t"
  have f0: "forwarded p ?p1 [] (sched = [])" by (rule forwarded_initClock)
  have "forwarded ?p1 p' out (sched = [])"
  proof (cases "isVideoSubpart ?p1 ?t'")
    case False
    then obtain r where r: "trackLoop now sched ?p1 ts n = r"
      and res: "withTrack ?t' r = (e, p', sched', out, m)"
      using Cons.prems by (simp add: Let_def)
    obtain e1 p1 s1 o1 m1 where r1: "r = (e1, p1, s1, o1, m1)" by (cases r) auto
    from res r1 have eq: "p' = p1" "out = [?t'] @ o1" by (simp_all add: withTrack_def)
    from forwarded_trans [OF forwarded_skip [OF False] Cons.IH [OF r [unfolded r1]]] eq
    show ?thesis by simp
  next
    case True
    show ?thesis
    proof (cases "videoProc ?p1")
      case None
      have "p' = ?p1 \<and> out = [?t']" using Cons.prems True None by (auto simp: Let_def)
      then show ?thesis using forwarded_nil_proc [OF None] by simp
    next
      case (Some vp)
      show ?thesis
      proof (cases "ctxDoneTaken sched")
        case ct: True
        then have ne: "sched \<noteq> []" by (auto simp: ctxDoneTaken_def)
        have "p' = ?p1 \<and> out = [?t']" using Cons.prems True Some ct by (auto simp: Let_def)
        then show ?thesis using forwarded_stop [OF Some] ne by simp
      next
        case cf: False
        let ?p2 = "?p1\<lparr>videoProc := Some (vp\<lparr>queue := queue vp @ [?t']\<rparr>)\<rparr>"
        obtain r where r: "trackLoop now (tl sched) ?p2 ts (Suc n) = r"
           and res: "withTrack ?t' r = (e, p', sched', out, m)"
          using Cons.prems True Some cf by (simp add: Let_def)
        obtain e1 p1 s1 o1 m1 where r1: "r = (e1, p1, s1, o1, m1)" by (cases r) auto
        from res r1 have eq: "p' = p1" "out = [?t'] @ o1" by (simp_all add: withTrack_def)
        have ih: "forwarded ?p2 p1 o1 (sched = [])"
          using Cons.IH [OF r [unfolded r1]] by (cases sched) (auto simp: forwarded_def split: option.splits)
        from forwarded_trans [OF forwarded_send [OF True Some] ih] eq
        show ?thesis by simp
      qed
    qed
  qed
  from forwarded_trans [OF f0 this] show ?case by simp
qed


lemma processSegment_forwarded:
  assumes "processSegment PartRead now sched p byts = (e, p', sched', out)"
  shows "forwarded p p' out (sched = [])"
proof (cases "PartRead byts")
  case (Inl err)
  then show ?thesis using assms by (auto simp: processSegment_def forwarded_refl)
next
  case (Inr subparts)
  obtain e1 p1 s1 o1 m1 where r1: "trackLoop now sched p subparts 0 = (e1, p1, s1, o1, m1)"
    by (cases "trackLoop now sched p subparts 0") auto
  have "p' = p1 \<and> out = o1"
    using assms Inr r1 by (auto simp: processSegment_def split: option.splits prod.splits)
  then show ?thesis using trackLoop_forwarded [OF r1] by simp
qed

lemma forwarded_weaken: "forwarded p p' out c \<Longrightarrow> (c' \<longrightarrow> c) \<Longrightarrow> forwarded p p' out c'"
  by (auto simp: forwarded_def split: option.splits)

lemma run_forwarded:
  "run PartRead now sched p segs = (err, p', out) \<Longrightarrow> forwarded p p' out (sched = [])"
proof (induction segs arbitrary: sched p err p' out)
  case Nil
  then show ?case by (simp add: forwarded_refl)
next
  case (Cons seg segs)
  obtain e1 p1 s1 o1 where ps: "processSegment PartRead now sched p seg = (e1, p1, s1, o1)"
    by (cases "processSegment PartRead now sched p seg") auto
  note F = processSegment_forwarded [OF ps]
  show ?case
  proof (cases e1)
    case (Some e)
    then have "p' = p1 \<and> out = o1" using Cons.prems ps by simp
    then show ?thesis using F by simp
  next
    case None
    obtain e2 p2 o2 where rr: "run PartRead now s1 p1 segs = (e2, p2, o2)"
      by (cases "run PartRead now s1 p1 segs") auto
    then have eq: "p' = p2 \<and> out = o1 @ o2" using Cons.prems ps None by simp
    have "sched = [] \<longrightarrow> s1 = []" using processSegment_clock [OF ps] by simp
    from forwarded_weaken [OF Cons.IH [OF rr] this]
    show ?thesis using forwarded_trans [OF F] eq by simp
  qed
qed

lemma new_processor:
  assumes "newClientProcessorFMP4 InitRead AVCC initFile onTracks onVideoData onAudioData = Inr p"
  shows "audioQueue p = None \<or> audioQueue p = Some []"
    and "videoQueue p = None \<or> videoQueue p = Some []"
    and "\<forall>ap. audioProc p = Some ap \<longrightarrow> onData ap = audioOnData onAudioData"
    and "\<not> clockInitialized p"
  using assms
  by (auto simp: newClientProcessorFMP4_def newClientProcessorFMP4Track_def audioQueue_def
      videoQueue_def split: sum.splits prod.splits if_splits option.splits)

lemma trackLoop_ok:
  "initVideoTrack p = None \<or> videoProc p \<noteq> None \<Longrightarrow>
   trackLoop now [] p tracks n = (e, p', sched', out, m) \<Longrightarrow>
   e = None \<and> (initVideoTrack p' = None \<or> videoProc p' \<noteq> None)"
proof (induction tracks arbitrary: p n e p' sched' out m)
  case Nil
  then show ?case by auto
next
  case (Cons t ts)
  let ?p1 = "initClock now p t"
  let ?t' = "rebaseTrack (startBaseTime ?p1) t"
  have wf1: "initVideoTrack ?p1 = None \<or> videoProc ?p1 \<noteq> None"
    using Cons.prems(1) by (auto simp: initClock_def)
  show ?case
  proof (cases "isVideoSubpart ?p1 ?t'")
    case False
    then obtain r where r: "trackLoop now [] ?p1 ts n = r"
      and res: "withTrack ?t' r = (e, p', sched', out, m)"
      using Cons.prems(2) by (simp add: Let_def)
    obtain e1 p1 s1 o1 m1 where r1: "r = (e1, p1, s1, o1, m1)" by (cases r) auto
    from res r1 have eq: "e = e1" "p' = p1" by (simp_all add: withTrack_def)
    from Cons.IH [OF wf1 r [unfolded r1]] eq show ?thesis by simp
  next
    case True
    then have "initVideoTrack ?p1 \<noteq> None"
      by (auto simp: isVideoSubpart_def split: option.splits)
    then obtain vp where vp: "videoProc ?p1 = Some vp" using wf1 by auto
    let ?p2 = "?p1\<lparr>videoProc := Some (vp\<lparr>queue := queue vp @ [?t']\<rparr>)\<rparr>"
    obtain r where r: "trackLoop now [] ?p2 ts (Suc n) = r"
      and res: "withTrack ?t' r = (e, p', sched', out, m)"
      using Cons.prems(2) True vp by (simp add: Let_def ctxDoneTaken_def)
    obtain e1 p1 s1 o1 m1 where r1: "r = (e1, p1, s1, o1, m1)" by (cases r) auto
    from res r1 have eq: "e = e1" "p' = p1" by (simp_all add: withTrack_def)
    have wf2: "initVideoTrack ?p2 = None \<or> videoProc ?p2 \<noteq> None" by simp
    from Cons.IH [OF wf2 r [unfolded r1]] eq show ?thesis by simp
  qed
qed

lemma processSegment_ok:
  assumes "initVideoTrack p = None \<or> videoProc p \<noteq> None"
    and "PartRead byts = Inr ts"
    and "processSegment PartRead now [] p byts = (e, p', sched', out)"
  shows "e = None \<and> sched' = [] \<and> (initVideoTrack p' = None \<or> videoProc p' \<noteq> None)"
proof -
  obtain e1 p1 s1 o1 m1 where r1: "trackLoop now [] p ts 0 = (e1, p1, s1, o1, m1)"
    by (cases "trackLoop now [] p ts 0") auto
  from trackLoop_ok [OF assms(1) r1] have e1: "e1 = None"
    and wf: "initVideoTrack p1 = None \<or> videoProc p1 \<noteq> None" by simp_all
  have s1: "s1 = []" using trackLoop_clock [OF r1] by simp
  show ?thesis using assms(2,3) r1 e1 s1 wf
    by (auto simp: processSegment_def waitLoop_nocancel)
qed

lemma run_ok:
  "initVideoTrack p = None \<or> videoProc p \<noteq> None \<Longrightarrow>
   \<forall>b \<in> set segs. isl (PartRead b) = False \<Longrightarrow>
   run PartRead now [] p segs = (err, p', out) \<Longrightarrow> err = ErrTerminated"
proof (induction segs arbitrary: p err p' out)
  case Nil
  then show ?case by simp
next
  case (Cons seg segs)
  obtain ts where ts: "PartRead seg = Inr ts"
    using Cons.prems(2) by (cases "PartRead seg") auto
  obtain e1 p1 s1 o1 where ps: "processSegment PartRead now [] p seg = (e1, p1, s1, o1)"
    by (cases "processSegment PartRead now [] p seg") auto
  from processSegment_ok [OF Cons.prems(1) ts ps]
  have e1: "e1 = None" and s1: "s1 = []"
    and wf: "initVideoTrack p1 = None \<or> videoProc p1 \<noteq> None" by simp_all
  obtain e2 p2 o2 where rr: "run PartRead now [] p1 segs = (e2, p2, o2)"
    by (cases "run PartRead now [] p1 segs") auto
  have "err = e2" using Cons.prems(3) ps e1 s1 rr by simp
  moreover have "e2 = ErrTerminated"
    using Cons.IH [OF wf _ rr] Cons.prems(2) by simp
  ultimately show ?case by simp
qed

lemmas processor_defs =
  exampleProcessor_def newClientProcessorFMP4_def exampleInitRead_def acceptTracks_def
  examplePartRead_def processSegment_def initClock_def Let_def rebaseTrack_def withTrack_def
  isVideoSubpart_def ctxDoneTaken_def newClientProcessorFMP4Track_def subpartsOf_def
  clockStart_def

subsection \<open>The claims\<close>

text \<open>
  Claim C4. Let \<open>run\<close> process any sequence of segments, under any schedule of
  cancellation, and let \<open>out\<close> be the subparts it reached. Then \<open>out\<close> is a prefix of the
  subparts of the segments, each with its base time replaced by its difference from the
  zero point; the zero point is the start recorded before if the clock was initialized,
  and the base time of the first subpart otherwise. The clock is initialized afterwards
  exactly if it was before or a subpart was reached, and the recorded start is then the
  zero point: it is written at the first subpart and never again. Without cancellation,
  a run that ends with the end of the segments has reached every subpart.
\<close>

theorem run_rebases_from_first:
  assumes "run PartRead now sched p segs = (err, p', out)"
  shows "length out \<le> length (subpartsOf PartRead segs)
   \<and> out = map (rebaseTrack (clockStart p (subpartsOf PartRead segs)))
             (take (length out) (subpartsOf PartRead segs))
   \<and> clockInitialized p' = (clockInitialized p \<or> out \<noteq> [])
   \<and> (clockInitialized p' \<longrightarrow> startBaseTime p' = clockStart p (subpartsOf PartRead segs))
   \<and> (sched = [] \<and> err = ErrTerminated \<longrightarrow> length out = length (subpartsOf PartRead segs))"
  using assms by (rule run_clock)

text \<open>
  Claim C4 on the example stream: two segments, the first subpart at base time 1000.
\<close>

theorem run_rebases_from_first_witness:
  "fst (run examplePartRead 7 [] (projr exampleProcessor) [''seg1'', ''seg2'']) = ErrTerminated
   \<and> snd (snd (run examplePartRead 7 [] (projr exampleProcessor) [''seg1'', ''seg2''])) =
       [\<lparr>ID = 1, BaseTime = 0\<rparr>, \<lparr>ID = 2, BaseTime = 18446744073709551606\<rparr>,
        \<lparr>ID = 1, BaseTime = 40\<rparr>, \<lparr>ID = 2, BaseTime = 30\<rparr>]
   \<and> clockInitialized
        (fst (snd (run examplePartRead 7 [] (projr exampleProcessor) [''seg1'', ''seg2''])))
   \<and> startBaseTime
        (fst (snd (run examplePartRead 7 [] (projr exampleProcessor) [''seg1'', ''seg2''])))
       = 1000"
proof -
  let ?r = "run examplePartRead 7 [] (projr exampleProcessor) [''seg1'', ''seg2'']"
  have h: "?r = (fst ?r, fst (snd ?r), snd (snd ?r))" by simp
  from run_rebases_from_first [OF h] show ?thesis
    by (simp add: processor_defs)
qed

text \<open>
  Claim C8. For a processor built by \<open>newClientProcessorFMP4\<close> and run on any segments
  under any schedule: the audio processor's channel is still empty and its data callback
  returns without any effect, whatever the payload; every subpart in the video processor's
  channel is one of the subparts reached whose ID is the video init track's ID, and
  without cancellation the channel holds exactly those, in order. The processor built
  does not depend on the \<open>onAudioData\<close> callback at all.
\<close>

theorem audio_never_forwarded:
  assumes new: "newClientProcessorFMP4 InitRead AVCC initFile onTracks onVideoData onAudioData
                  = Inr p0"
      and run: "run PartRead now sched p0 segs = (err, p, out)"
  shows "(\<forall>ap. audioProc p = Some ap \<longrightarrow> queue ap = [] \<and> onData ap pts payload = (None, []))
       \<and> (\<forall>vp. videoProc p = Some vp \<longrightarrow>
             set (queue vp) \<subseteq> {t \<in> set out. isVideoSubpart p0 t}
           \<and> (sched = [] \<longrightarrow> queue vp = filter (isVideoSubpart p0) out))
       \<and> newClientProcessorFMP4 InitRead AVCC initFile onTracks onVideoData onAudioData'
           = Inr p0"
proof -
  note N = new_processor [OF new]
  have F: "forwarded p0 p out (sched = [])" by (rule run_forwarded [OF run])
  have a: "queue ap = [] \<and> onData ap pts payload = (None, [])" if "audioProc p = Some ap" for ap
  proof -
    have "audioQueue p = audioQueue p0"
      "map_option onData (audioProc p) = map_option onData (audioProc p0)"
      using F by (simp_all add: forwarded_def)
    then show ?thesis using that N(1,3)
      by (cases "audioProc p0") (auto simp: audioQueue_def audioOnData_def)
  qed
  have v: "set (queue vp) \<subseteq> {t \<in> set out. isVideoSubpart p0 t}
           \<and> (sched = [] \<longrightarrow> queue vp = filter (isVideoSubpart p0) out)"
    if "videoProc p = Some vp" for vp
    using F that N(2) by (cases "videoProc p0") (auto simp: forwarded_def videoQueue_def)
  have "audioOnData f = (\<lambda>pts payload. (None, []))" for f :: "int \<Rightarrow> string \<Rightarrow> 'a list"
    by (simp add: audioOnData_def fun_eq_iff)
  then have "newClientProcessorFMP4 InitRead AVCC initFile onTracks onVideoData onAudioData'
      = newClientProcessorFMP4 InitRead AVCC initFile onTracks onVideoData onAudioData"
    by (simp add: newClientProcessorFMP4_def split: sum.splits prod.splits option.splits)
  then show ?thesis using a v new by simp
qed

text \<open>
  Claim C8 on the example stream, whose segments hold a video and an audio subpart each:
  both video subparts are in the video channel, the audio channel is empty, and the audio
  callback has no effect although the user's callback would have had one.
\<close>

theorem audio_never_forwarded_witness:
  "exampleProcessor = Inr (projr exampleProcessor)
   \<and> audioQueue (fst (snd (run examplePartRead 7 [] (projr exampleProcessor) [''seg1'', ''seg2''])))
       = Some []
   \<and> videoQueue (fst (snd (run examplePartRead 7 [] (projr exampleProcessor) [''seg1'', ''seg2''])))
       = Some [\<lparr>ID = 1, BaseTime = 0\<rparr>, \<lparr>ID = 1, BaseTime = 40\<rparr>]
   \<and> map_option (\<lambda>ap. onData ap 0 ''payload'')
        (audioProc (fst (snd (run examplePartRead 7 [] (projr exampleProcessor)
                                [''seg1'', ''seg2'']))))
       = Some (None, [])
   \<and> noteAudio 0 ''payload'' \<noteq> []"
proof -
  let ?r = "run examplePartRead 7 [] (projr exampleProcessor) [''seg1'', ''seg2'']"
  have n0: "exampleProcessor = Inr (projr exampleProcessor)"
    by (simp add: processor_defs)
  have n: "newClientProcessorFMP4 exampleInitRead exampleAVCCUnmarshal ''init'' acceptTracks
             noteVideo noteAudio = Inr (projr exampleProcessor)"
    unfolding exampleProcessor_def [symmetric] by (rule n0)
  have h: "?r = (fst ?r, fst (snd ?r), snd (snd ?r))" by simp
  have q: "audioQueue (fst (snd ?r)) = Some []
         \<and> videoQueue (fst (snd ?r)) = Some [\<lparr>ID = 1, BaseTime = 0\<rparr>, \<lparr>ID = 1, BaseTime = 40\<rparr>]"
    by (simp add: processor_defs audioQueue_def videoQueue_def)
  have e: "noteAudio 0 ''payload'' \<noteq> []" by (simp add: noteAudio_def)
  from audio_never_forwarded [OF n h, of 0 "''payload''"]
  have "\<forall>ap. audioProc (fst (snd ?r)) = Some ap \<longrightarrow> onData ap 0 ''payload'' = (None, [])"
    by blast
  moreover have "audioProc (fst (snd ?r)) \<noteq> None"
    using q by (auto simp: audioQueue_def)
  ultimately have "map_option (\<lambda>ap. onData ap 0 ''payload'') (audioProc (fst (snd ?r)))
      = Some (None, [])"
    by (cases "audioProc (fst (snd ?r))") auto
  with n0 q e show ?thesis by blast
qed

text \<open>
  Claim C9. Let \<open>run\<close> process any sequence of segments from any processor under any
  schedule. A subpart it reaches whose base time is below the zero point (the recorded
  start, or the base time of the first subpart if the clock was not set) is left with its
  old base time plus \<open>2 ^ 64\<close> minus the zero point, which is not zero: the subtraction of
  \<open>uint64\<close> wraps. It does not make the run fail: without cancellation, with segments
  that parse and with a video processor wherever there is a video init track, the run
  reaches every subpart and ends only when the segments end.
\<close>

theorem rebase_wraps:
  assumes run: "run PartRead now sched p segs = (err, p', out)"
    and i: "i < length out"
    and lt: "BaseTime (subpartsOf PartRead segs ! i) < clockStart p (subpartsOf PartRead segs)"
  shows "out ! i = (subpartsOf PartRead segs ! i)
           \<lparr>BaseTime := BaseTime (subpartsOf PartRead segs ! i)
                          - clockStart p (subpartsOf PartRead segs)\<rparr>
    \<and> unat (BaseTime (out ! i)) =
        unat (BaseTime (subpartsOf PartRead segs ! i)) + 2 ^ 64
          - unat (clockStart p (subpartsOf PartRead segs))
    \<and> BaseTime (out ! i) \<noteq> 0
    \<and> (sched = [] \<and> (initVideoTrack p = None \<or> videoProc p \<noteq> None)
         \<and> (\<forall>b \<in> set segs. isl (PartRead b) = False)
        \<longrightarrow> err = ErrTerminated \<and> length out = length (subpartsOf PartRead segs))"
proof -
  let ?all = "subpartsOf PartRead segs"
  note R = run_clock [OF run]
  have o: "out ! i = rebaseTrack (clockStart p ?all) (?all ! i)"
  proof -
    have "out ! i = map (rebaseTrack (clockStart p ?all)) (take (length out) ?all) ! i"
      using R by simp
    also have "\<dots> = rebaseTrack (clockStart p ?all) (take (length out) ?all ! i)"
      using i R by (intro nth_map) simp
    also have "\<dots> = rebaseTrack (clockStart p ?all) (?all ! i)"
      using i by simp
    finally show ?thesis .
  qed
  have b: "BaseTime (out ! i) = BaseTime (?all ! i) - clockStart p ?all"
    using o by (simp add: rebaseTrack_def)
  have u: "unat (BaseTime (out ! i)) =
        unat (BaseTime (?all ! i)) + 2 ^ 64 - unat (clockStart p ?all)"
    using lt unfolding b by (simp add: unat_sub_if_size word_less_nat_alt word_size)
  have z: "BaseTime (out ! i) \<noteq> 0" using lt unfolding b by auto
  have t: "err = ErrTerminated \<and> length out = length ?all"
    if "sched = []" "initVideoTrack p = None \<or> videoProc p \<noteq> None"
       "\<forall>b \<in> set segs. isl (PartRead b) = False"
  proof -
    have "err = ErrTerminated" using run_ok [OF that(2,3)] run that(1) by simp
    then show ?thesis using R that(1) by simp
  qed
  show ?thesis using o u z t by (simp add: rebaseTrack_def)
qed

text \<open>
  Claim C9 on the example stream: the audio subpart of the first segment has base time
  990, below the first subpart's 1000.
\<close>

theorem rebase_wraps_witness:
  "fst (run examplePartRead 7 [] (projr exampleProcessor) [''seg1'', ''seg2'']) = ErrTerminated
   \<and> length (snd (snd (run examplePartRead 7 [] (projr exampleProcessor) [''seg1'', ''seg2''])))
       = 4
   \<and> subpartsOf examplePartRead [''seg1'', ''seg2''] ! 1 = \<lparr>ID = 2, BaseTime = 990\<rparr>
   \<and> clockStart (projr exampleProcessor) (subpartsOf examplePartRead [''seg1'', ''seg2'']) = 1000
   \<and> snd (snd (run examplePartRead 7 [] (projr exampleProcessor) [''seg1'', ''seg2''])) ! 1
       = \<lparr>ID = 2, BaseTime = 18446744073709551606\<rparr>
   \<and> unat (BaseTime (snd (snd (run examplePartRead 7 [] (projr exampleProcessor)
                                  [''seg1'', ''seg2''])) ! 1))
       = 990 + 2 ^ 64 - 1000"
proof -
  let ?r = "run examplePartRead 7 [] (projr exampleProcessor) [''seg1'', ''seg2'']"
  have h: "?r = (fst ?r, fst (snd ?r), snd (snd ?r))" by simp
  have a: "subpartsOf examplePartRead [''seg1'', ''seg2''] ! 1 = \<lparr>ID = 2, BaseTime = 990\<rparr>
     \<and> clockStart (projr exampleProcessor) (subpartsOf examplePartRead [''seg1'', ''seg2'']) = 1000"
    by (simp add: processor_defs)
  have l: "length (snd (snd ?r)) = 4" by (simp add: processor_defs)
  have i: "1 < length (snd (snd ?r))" using l by simp
  have lt: "BaseTime (subpartsOf examplePartRead [''seg1'', ''seg2''] ! 1)
          < clockStart (projr exampleProcessor) (subpartsOf examplePartRead [''seg1'', ''seg2''])"
    using a by simp
  have w: "initVideoTrack (projr exampleProcessor) = None \<or> videoProc (projr exampleProcessor) \<noteq> None"
    by (simp add: processor_defs)
  have p: "\<forall>b \<in> set [''seg1'', ''seg2'']. isl (examplePartRead b) = False"
    by (simp add: examplePartRead_def)
  note T = rebase_wraps [OF h i lt]
  from T w p have "fst ?r = ErrTerminated" by blast
  moreover from T a have "snd (snd ?r) ! 1 = \<lparr>ID = 2, BaseTime = 18446744073709551606\<rparr>"
    by simp
  moreover from T a have "unat (BaseTime (snd (snd ?r) ! 1)) = 990 + 2 ^ 64 - 1000"
    by simp
  ultimately show ?thesis using a l by blast
qed

end
